theory Spec2Isabelle
  imports Main "HOL-Library.List_Lexorder"
begin

section \<open>EchoCode: structural code navigation\<close>

text \<open>
  A shallow embedding of \<^verbatim>\<open>Core/Summarizer/codeParser.js\<close> (the block locator) and
  \<^verbatim>\<open>navigation_features/navigationHandler.js\<close> (jump targets and the navigator).

  Conventions of the embedding.
  \<^item> A \<^verbatim>\<open>vscode.Position\<close> holds two non-negative integers (the constructor of the
    editor API rejects negative ones), so its fields are \<open>nat\<close>; differences of fields
    are taken in \<open>int\<close>, where JavaScript's subtraction may go below zero. All numbers
    involved are integers far below \<open>2^53\<close>, where JavaScript's doubles are exact.
  \<^item> A symbol is a \<^verbatim>\<open>vscode.DocumentSymbol\<close>, the type the source declares for the
    provider's answer: name, kind, range and children (its \<^verbatim>\<open>detail\<close> and
    \<^verbatim>\<open>selectionRange\<close> are never read by the code and are left out).
  \<^item> What the editor gives (the document's text, \<^verbatim>\<open>lineAt\<close>, \<^verbatim>\<open>positionAt\<close>, the answer
    of the symbol provider) is a parameter of the functions that use it. The functions
    start from the provider's answer; a provider call that never answers or rejects is not
    part of the model.
  \<^item> \<^verbatim>\<open>Array.prototype.sort\<close> is a stable sort (ECMAScript 2019); for a comparator that
    is a total preorder the stable sorted arrangement of a list is unique, and
    \<open>js_sort\<close> below computes it by stable insertion.
\<close>

subsection \<open>Positions and ranges\<close>

record position =
  line :: nat
  character :: nat

record range =
  start :: position
  end' :: position

definition new_Position :: "nat \<Rightarrow> nat \<Rightarrow> position" where
  "new_Position l c = \<lparr>line = l, character = c\<rparr>"

definition new_Range :: "nat \<Rightarrow> nat \<Rightarrow> nat \<Rightarrow> nat \<Rightarrow> range" where
  "new_Range sl sc el ec = \<lparr>start = new_Position sl sc, end' = new_Position el ec\<rparr>"

text \<open>\<^verbatim>\<open>Position.isBefore\<close> and \<^verbatim>\<open>Position.isAfter\<close> of the editor API: strict comparison
  by line, then by character.\<close>

definition isBefore :: "position \<Rightarrow> position \<Rightarrow> bool" where
  "isBefore p other =
     (if line p < line other then True
      else if line other < line p then False
      else character p < character other)"

definition isBeforeOrEqual :: "position \<Rightarrow> position \<Rightarrow> bool" where
  "isBeforeOrEqual p other =
     (if line p < line other then True
      else if line other < line p then False
      else character p \<le> character other)"

definition isAfter :: "position \<Rightarrow> position \<Rightarrow> bool" where
  "isAfter p other = (\<not> isBeforeOrEqual p other)"

text \<open>The lexicographic order on (line, column) in the words of the specification.\<close>

definition pos_le :: "position \<Rightarrow> position \<Rightarrow> bool" where
  "pos_le p q = (line p < line q \<or> (line p = line q \<and> character p \<le> character q))"

definition pos_less :: "position \<Rightarrow> position \<Rightarrow> bool" where
  "pos_less p q = (line p < line q \<or> (line p = line q \<and> character p < character q))"

text \<open>The helpers of \<^verbatim>\<open>codeParser.js\<close>.\<close>

definition inRange :: "position \<Rightarrow> range \<Rightarrow> bool" where
  "inRange pos r =
     (let s = start r; e = end' r in
      if line pos < line s \<or> line pos > line e then False
      else if line pos = line s \<and> character pos < character s then False
      else if line pos = line e \<and> character pos > character e then False
      else True)"

definition rangeSize :: "range \<Rightarrow> int" where
  "rangeSize r =
     (int (line (end' r)) - int (line (start r))) * 10000
       + (int (character (end' r)) - int (character (start r)))"

subsection \<open>Symbols\<close>

datatype symbol_kind =
    File | Module | Namespace | Package | Class | Method | Property' | Field'
  | Constructor | Enum | Interface | Function | Variable | Constant | String
  | Number | Boolean | Array | Object | Key | Null | EnumMember | Struct
  | Event | Operator | TypeParameter

datatype symbol =
  DocumentSymbol (sym_name: string) (sym_kind: symbol_kind) (sym_range: range)
    (sym_children: "symbol list")

subsection \<open>Sorting with a comparator\<close>

fun js_insert :: "('a \<Rightarrow> 'a \<Rightarrow> int) \<Rightarrow> 'a \<Rightarrow> 'a list \<Rightarrow> 'a list" where
  "js_insert cmp x [] = [x]"
| "js_insert cmp x (y # ys) =
     (if cmp x y \<le> 0 then x # y # ys else y # js_insert cmp x ys)"

definition js_sort :: "('a \<Rightarrow> 'a \<Rightarrow> int) \<Rightarrow> 'a list \<Rightarrow> 'a list" where
  "js_sort cmp xs = foldr (js_insert cmp) xs []"

subsection \<open>The editor's side\<close>

datatype host_error = IllegalLine nat

datatype text_line = TextLine (lineNumber: nat) (line_text: string)

record text_document =
  uri :: string
  getText :: "range option \<Rightarrow> string"
  lineAt :: "nat \<Rightarrow> host_error + text_line"
  positionAt :: "nat \<Rightarrow> position"

record editor =
  document :: text_document
  active :: position

subsection \<open>The block locator of \<^verbatim>\<open>codeParser.js\<close>\<close>

record flat_entry =
  symb :: symbol
  parents :: "symbol list"

text \<open>The inner function \<^verbatim>\<open>walk\<close>: the entry of a symbol is pushed before its children
  are walked, and its siblings follow.\<close>

fun walk :: "symbol list \<Rightarrow> symbol list \<Rightarrow> flat_entry list" where
  "walk [] ps = []"
| "walk (DocumentSymbol n k r cs # rest) ps =
     \<lparr>symb = DocumentSymbol n k r cs, parents = ps\<rparr>
       # (if cs \<noteq> [] then walk cs (ps @ [DocumentSymbol n k r cs]) else [])
       @ walk rest ps"

datatype want_kind = OneKind symbol_kind | KindList "symbol_kind list"

definition wantKind :: "string \<Rightarrow> want_kind" where
  "wantKind bt = (if bt = ''class'' then OneKind Class else KindList [Function, Method])"

fun kindWanted :: "want_kind \<Rightarrow> symbol_kind \<Rightarrow> bool" where
  "kindWanted (KindList ks) k = (k \<in> set ks)"
| "kindWanted (OneKind w) k = (k = w)"

definition cmpRangeSize :: "flat_entry \<Rightarrow> flat_entry \<Rightarrow> int" where
  "cmpRangeSize a b = rangeSize (sym_range (symb a)) - rangeSize (sym_range (symb b))"

text \<open>Steps 2 to 4 of \<^verbatim>\<open>detectCurrentBlock\<close>: the entries whose range holds the cursor,
  of these the ones of the wanted kind, sorted by size; \<^verbatim>\<open>[0]\<close> of an empty array is
  \<^verbatim>\<open>undefined\<close>.\<close>

definition candidates :: "position \<Rightarrow> string \<Rightarrow> symbol list \<Rightarrow> flat_entry list" where
  "candidates cursor bt symbols =
     filter (\<lambda>e. kindWanted (wantKind bt) (sym_kind (symb e)))
       (filter (\<lambda>e. inRange cursor (sym_range (symb e))) (walk symbols []))"

definition containing :: "position \<Rightarrow> string \<Rightarrow> symbol list \<Rightarrow> flat_entry option" where
  "containing cursor bt symbols =
     (case js_sort cmpRangeSize (candidates cursor bt symbols) of
        [] \<Rightarrow> None
      | e # _ \<Rightarrow> Some e)"

record Selection =
  firstLine :: "text_line option"
  lastLine :: "text_line option"
  cursorInSelection :: bool
  blockType :: string
  sel_name :: string
  sel_text :: string
  selectionInClass :: bool

definition new_Selection :: "string \<Rightarrow> Selection" where
  "new_Selection bt =
     \<lparr>firstLine = None, lastLine = None, cursorInSelection = True, blockType = bt,
      sel_name = [], sel_text = [], selectionInClass = False\<rparr>"

text \<open>\<^verbatim>\<open>detectCurrentBlock\<close> mutates the object it is called on. The model returns the
  object as the call leaves it, and the exception when \<^verbatim>\<open>lineAt\<close> throws one; the fields
  assigned before the throw keep their new values. The second argument is the answer of
  the symbol provider (\<open>None\<close> for \<^verbatim>\<open>undefined\<close>).\<close>

definition detectCurrentBlock ::
  "Selection \<Rightarrow> editor \<Rightarrow> symbol list option \<Rightarrow> Selection \<times> host_error option" where
  "detectCurrentBlock this ed provided =
     (let doc = document ed;
          cursor = active ed;
          symbols = (case provided of None \<Rightarrow> [] | Some ss \<Rightarrow> ss)
      in case containing cursor (blockType this) symbols of
           None \<Rightarrow> (this\<lparr>cursorInSelection := False\<rparr>, None)
         | Some c \<Rightarrow>
            (let s = symb c;
                 this1 = this\<lparr>sel_name := sym_name s\<rparr>
             in case lineAt doc (line (start (sym_range s))) of
                  Inl err \<Rightarrow> (this1, Some err)
                | Inr l1 \<Rightarrow>
                   (let this2 = this1\<lparr>firstLine := Some l1\<rparr>
                    in case lineAt doc (line (end' (sym_range s))) of
                         Inl err \<Rightarrow> (this2, Some err)
                       | Inr l2 \<Rightarrow>
                          (this2\<lparr>lastLine := Some l2,
                                 sel_text := getText doc (Some (sym_range s)),
                                 selectionInClass := (\<exists>p \<in> set (parents c). sym_kind p = Class)\<rparr>,
                           None))))"

subsection \<open>Jump targets of \<^verbatim>\<open>navigationHandler.js\<close>\<close>

text \<open>An element of \<^verbatim>\<open>flattenSymbols\<close>' result is \<^verbatim>\<open>{ ...s, parent }\<close>: the fields of the
  symbol and the chain of its ancestors.\<close>

record flat_symbol =
  fs_name :: string
  fs_kind :: symbol_kind
  fs_range :: range
  fs_children :: "symbol list"
  parent :: "symbol list"

fun flattenSymbols :: "symbol list \<Rightarrow> symbol list \<Rightarrow> flat_symbol list" where
  "flattenSymbols [] par = []"
| "flattenSymbols (DocumentSymbol n k r cs # rest) par =
     \<lparr>fs_name = n, fs_kind = k, fs_range = r, fs_children = cs, parent = par\<rparr>
       # (if cs \<noteq> [] then flattenSymbols cs (par @ [DocumentSymbol n k r cs]) else [])
       @ flattenSymbols rest par"

definition isJumpableKind :: "symbol_kind \<Rightarrow> bool" where
  "isJumpableKind k =
     (k = Function \<or> k = Method \<or> k = Constructor \<or> k = Class \<or> k = Struct)"

text \<open>\<^verbatim>\<open>String.prototype.trim\<close> on the white space and line terminators that a \<open>char\<close>
  can hold (tab, line feed, vertical tab, form feed, carriage return, space and the
  no-break space U+00A0), and \<^verbatim>\<open>Array.prototype.join\<close>.\<close>

definition is_space :: "char \<Rightarrow> bool" where
  "is_space c =
     (c \<in> set [CHR 0x09, CHR 0x0A, CHR 0x0B, CHR 0x0C, CHR 0x0D, CHR '' '', CHR 0xA0])"

definition trim :: "string \<Rightarrow> string" where
  "trim s = rev (dropWhile is_space (rev (dropWhile is_space s)))"

fun join :: "string \<Rightarrow> string list \<Rightarrow> string" where
  "join sep [] = []"
| "join sep [x] = x"
| "join sep (x # y # ys) = x @ sep @ join sep (y # ys)"

text \<open>\<^verbatim>\<open>prettyName\<close>: the ancestors' names are trimmed and then filtered; the symbol's own
  name is tested and then trimmed. A name is a string, so \<^verbatim>\<open>p.name || ""\<close> is the name.\<close>

definition prettyName :: "flat_symbol \<Rightarrow> string" where
  "prettyName s =
     (let chain = filter (\<lambda>n. n \<noteq> []) (map (\<lambda>p. trim (sym_name p)) (parent s));
          chain = (if fs_name s \<noteq> [] then chain @ [trim (fs_name s)] else chain);
          joined = join ''::'' chain
      in if joined \<noteq> [] then joined else ''(unnamed)'')"

definition getPositionFromRange :: "text_document \<Rightarrow> range option \<Rightarrow> position" where
  "getPositionFromRange doc r = (case r of Some rg \<Rightarrow> start rg | None \<Rightarrow> new_Position 0 0)"

record jump_target =
  position :: position
  name :: string

definition cmpPosition :: "jump_target \<Rightarrow> jump_target \<Rightarrow> int" where
  "cmpPosition a b =
     (if line (position a) = line (position b)
      then int (character (position a)) - int (character (position b))
      else int (line (position a)) - int (line (position b)))"

text \<open>Lines 61 to 72: the targets built from the provider's symbols.\<close>

definition providerTargets :: "text_document \<Rightarrow> symbol list \<Rightarrow> jump_target list" where
  "providerTargets doc symbols =
     js_sort cmpPosition
       (map (\<lambda>s. \<lparr>position = getPositionFromRange doc (Some (fs_range s)),
                   name = prettyName s\<rparr>)
          (filter (\<lambda>s. isJumpableKind (fs_kind s)) (flattenSymbols symbols [])))"

text \<open>Lines 78 to 88: the regular expression \<^verbatim>\<open>/^(def |class )(\w+)/gm\<close> run over the
  text. With the flag \<^verbatim>\<open>m\<close> the anchor matches at the start of the text and after a
  line terminator (line feed or carriage return, of those that a \<open>char\<close> can hold); \<^verbatim>\<open>\w\<close> is a letter, a digit or the underscore. A match holds no line
  terminator, so the scan that resumes after a match finds what a scan of every index
  finds. Each element is the index of a match and its second group.\<close>

definition is_word_char :: "char \<Rightarrow> bool" where
  "is_word_char c =
     (let n = (of_char c :: nat)
      in (48 \<le> n \<and> n \<le> 57) \<or> (65 \<le> n \<and> n \<le> 90) \<or> n = 95 \<or> (97 \<le> n \<and> n \<le> 122))"

definition is_line_terminator :: "char \<Rightarrow> bool" where
  "is_line_terminator c = (c = CHR 0x0A \<or> c = CHR 0x0D)"

definition match_here :: "string \<Rightarrow> string option" where
  "match_here s =
     (let rest = (if take 4 s = ''def '' then Some (drop 4 s)
                  else if take 6 s = ''class '' then Some (drop 6 s)
                  else None)
      in case rest of
           None \<Rightarrow> None
         | Some r \<Rightarrow>
            (let w = takeWhile is_word_char r in if w = [] then None else Some w))"

fun re_exec_all :: "nat \<Rightarrow> bool \<Rightarrow> string \<Rightarrow> (nat \<times> string) list" where
  "re_exec_all i bol [] = []"
| "re_exec_all i bol (c # cs) =
     (case (if bol then match_here (c # cs) else None) of
        Some w \<Rightarrow> (i, w) # re_exec_all (Suc i) (is_line_terminator c) cs
      | None \<Rightarrow> re_exec_all (Suc i) (is_line_terminator c) cs)"

definition regexTargets :: "text_document \<Rightarrow> jump_target list" where
  "regexTargets doc =
     map (\<lambda>(i, w). \<lparr>position = positionAt doc i, name = w\<rparr>)
       (re_exec_all 0 True (getText doc None))"

text \<open>\<^verbatim>\<open>getJumpTargets\<close>; the second argument is the answer of the symbol provider
  (\<open>None\<close> for \<^verbatim>\<open>undefined\<close>).\<close>

definition getJumpTargets :: "text_document \<Rightarrow> symbol list option \<Rightarrow> jump_target list" where
  "getJumpTargets doc provided =
     (let symbols = (case provided of None \<Rightarrow> [] | Some ss \<Rightarrow> ss)
      in if length symbols > 0
         then (let flat = providerTargets doc symbols
               in if length flat \<noteq> 0 then flat else regexTargets doc)
         else regexTargets doc)"

subsection \<open>The navigator\<close>

text \<open>The two loops of \<^verbatim>\<open>moveCursorToSymbol\<close>: forward with \<^verbatim>\<open>break\<close> at the first target
  after the cursor, and by index from the last element down to the first.\<close>

fun scanForward :: "jump_target list \<Rightarrow> position \<Rightarrow> jump_target option" where
  "scanForward [] current = None"
| "scanForward (t # ts) current =
     (if isAfter (position t) current then Some t else scanForward ts current)"

fun scanBackward :: "jump_target list \<Rightarrow> nat \<Rightarrow> position \<Rightarrow> jump_target option" where
  "scanBackward targets 0 current = None"
| "scanBackward targets (Suc i) current =
     (if isBefore (position (targets ! i)) current then Some (targets ! i)
      else scanBackward targets i current)"

text \<open>The state the navigator touches: the active editor (its cursor is moved) and the
  module's \<^verbatim>\<open>lastTimeout\<close>, held here as the announcement that the pending timer will
  speak; scheduling a new one cancels the old. The result pairs the new state with the
  information message shown, if any. Revealing the target in the viewport changes nothing
  the code reads and is left out.\<close>

record nav_state =
  activeTextEditor :: "editor option"
  lastTimeout :: "string option"

definition directionWord :: "string \<Rightarrow> string" where
  "directionWord direction = (if direction = ''next'' then ''next'' else ''previous'')"

definition moveCursorToSymbol ::
  "string \<Rightarrow> nav_state \<Rightarrow> symbol list option \<Rightarrow> nav_state \<times> string option" where
  "moveCursorToSymbol direction st provided =
     (case activeTextEditor st of
        None \<Rightarrow> (st, None)
      | Some ed \<Rightarrow>
         (let targets = getJumpTargets (document ed) provided
          in if length targets = 0 then (st, Some ''No symbols found to jump to.'')
             else
              (let current = active ed;
                   target = (if direction = ''next'' then scanForward targets current
                             else scanBackward targets (length targets) current)
               in case target of
                    None \<Rightarrow> (st, Some (''No '' @ directionWord direction @ '' symbol.''))
                  | Some t \<Rightarrow>
                     (st\<lparr>activeTextEditor := Some (ed\<lparr>active := position t\<rparr>),
                         lastTimeout :=
                           Some (''Moved '' @ directionWord direction @ '' to '' @ name t @ ''.'')\<rparr>,
                      None))))"

subsection \<open>Notions of the specification\<close>

text \<open>A node of a symbol forest is addressed by the child indices on the way to it.
  \<open>node_at\<close> reads the symbol at an address (\<open>None\<close> when there is none) and
  \<open>ancestors_at\<close> the symbols at the proper, non-empty prefixes of an address, from the
  root downwards. In the lexicographic order on addresses a node comes before its
  descendants and these before its later siblings: a list of addresses is in depth-first
  pre-order with the child order kept when it is strictly ascending.\<close>

fun node_at :: "symbol list \<Rightarrow> nat list \<Rightarrow> symbol option" where
  "node_at ss [] = None"
| "node_at ss [i] = (if i < length ss then Some (ss ! i) else None)"
| "node_at ss (i # j # p) =
     (if i < length ss then node_at (sym_children (ss ! i)) (j # p) else None)"

definition ancestors_at :: "symbol list \<Rightarrow> nat list \<Rightarrow> symbol option list" where
  "ancestors_at ss p = map (\<lambda>k. node_at ss (take k p)) [1..<length p]"

fun preorder_addresses :: "nat \<Rightarrow> symbol list \<Rightarrow> nat list list" where
  "preorder_addresses i [] = []"
| "preorder_addresses i (DocumentSymbol n k r cs # rest) =
     [i] # map ((#) i) (preorder_addresses 0 cs) @ preorder_addresses (Suc i) rest"

definition symbol_of :: "flat_symbol \<Rightarrow> symbol" where
  "symbol_of s = DocumentSymbol (fs_name s) (fs_kind s) (fs_range s) (fs_children s)"

text \<open>The display name in the words of the specification: the trimmed names of the
  ancestors and of the symbol, the empty ones dropped, joined with \<^verbatim>\<open>::\<close>; the
  placeholder when nothing is left.\<close>

definition displayName :: "flat_symbol \<Rightarrow> string" where
  "displayName s =
     (let chain = filter (\<lambda>n. n \<noteq> [])
                    (map (\<lambda>p. trim (sym_name p)) (parent s) @ [trim (fs_name s)])
      in if chain = [] then ''(unnamed)'' else join ''::'' chain)"

text \<open>A list of targets ascending by position.\<close>

definition ascending :: "jump_target list \<Rightarrow> bool" where
  "ascending ts = sorted_wrt (\<lambda>a b. pos_le (position a) (position b)) ts"

subsection \<open>Inputs of the scenarios\<close>

text \<open>The tree of the specification's scenarios, a class \<^verbatim>\<open>A\<close> over lines 0 to 10 that
  holds a method \<^verbatim>\<open>foo\<close> over lines 2 to 4; a function over lines 0 to 10 that holds a
  function over lines 2 to 4; a tree in which a function and the function nested in it
  have the same extent; and a document for them.\<close>

definition scenario_tree :: "symbol list" where
  "scenario_tree =
     [DocumentSymbol ''A'' Class (new_Range 0 0 10 0)
        [DocumentSymbol ''foo'' Method (new_Range 2 2 4 2) []]]"

definition nested_tree :: "symbol list" where
  "nested_tree =
     [DocumentSymbol ''outer'' Function (new_Range 0 0 10 0)
        [DocumentSymbol ''inner'' Function (new_Range 2 2 4 2) []]]"

definition tie_tree :: "symbol list" where
  "tie_tree =
     [DocumentSymbol ''outer'' Function (new_Range 0 0 5 0)
        [DocumentSymbol ''inner'' Function (new_Range 0 0 5 0) []]]"

definition scenario_doc :: text_document where
  "scenario_doc =
     \<lparr>uri = ''file:///a.py'', getText = (\<lambda>_. []), lineAt = (\<lambda>n. Inr (TextLine n [])),
      positionAt = (\<lambda>i. new_Position 0 i)\<rparr>"

text \<open>A provider's answer without any jumpable symbol, a document whose text the regular
  expression matches and one whose text it does not match, and a flattened method whose
  own name is a single space.\<close>

definition variable_only :: "symbol list" where
  "variable_only = [DocumentSymbol ''x'' Variable (new_Range 0 0 0 1) []]"

definition python_doc :: text_document where
  "python_doc =
     \<lparr>uri = ''file:///b.py'', getText = (\<lambda>_. ''def f():''),
      lineAt = (\<lambda>n. Inr (TextLine n [])), positionAt = (\<lambda>i. new_Position 0 i)\<rparr>"

definition assignment_doc :: text_document where
  "assignment_doc =
     \<lparr>uri = ''file:///c.py'', getText = (\<lambda>_. ''x = 1''),
      lineAt = (\<lambda>n. Inr (TextLine n [])), positionAt = (\<lambda>i. new_Position 0 i)\<rparr>"

definition blank_name_entry :: flat_symbol where
  "blank_name_entry =
     \<lparr>fs_name = '' '', fs_kind = Method, fs_range = new_Range 2 2 4 2, fs_children = [],
      parent = scenario_tree\<rparr>"

section \<open>Properties\<close>

subsection \<open>Containment and size of ranges\<close>

text \<open>
  Claim C9. For every range with \<open>start \<le> end\<close> and every position, \<open>inRange\<close> holds
  exactly when the position lies in the closed interval from \<open>start\<close> to \<open>end\<close> of the
  lexicographic order on (line, column); on the first and the last line the columns decide.
  (The equivalence does not need \<open>start \<le> end\<close>: for a range that violates it both sides
  are false.)
\<close>

theorem inRange_closed_interval:
  assumes "pos_le (start r) (end' r)"
  shows "inRange p r \<longleftrightarrow> pos_le (start r) p \<and> pos_le p (end' r)"
  by (auto simp: inRange_def pos_le_def Let_def)

theorem inRange_closed_interval_witness:
  "pos_le (start (new_Range 2 2 4 2)) (end' (new_Range 2 2 4 2))
   \<and> inRange (new_Position 4 2) (new_Range 2 2 4 2)
   \<and> \<not> inRange (new_Position 4 3) (new_Range 2 2 4 2)
   \<and> \<not> inRange (new_Position 2 1) (new_Range 2 2 4 2)"
proof -
  have h: "pos_le (start (new_Range 2 2 4 2)) (end' (new_Range 2 2 4 2))"
    by (simp add: pos_le_def new_Range_def new_Position_def)
  show ?thesis
    using h inRange_closed_interval [OF h]
    by (simp add: pos_le_def new_Range_def new_Position_def)
qed

text \<open>
  Claim C10. For ranges \<open>r1\<close> and \<open>r2\<close> with \<open>start \<le> end\<close> each and every column below
  10000, if \<open>r1\<close> lies within \<open>r2\<close> (\<open>r2.start \<le> r1.start\<close> and \<open>r1.end \<le> r2.end\<close>,
  lexicographically) then \<open>rangeSize r1 \<le> rangeSize r2\<close>.
\<close>

theorem rangeSize_mono:
  assumes "pos_le (start r1) (end' r1)" and "pos_le (start r2) (end' r2)"
    and "character (start r1) < 10000" and "character (end' r1) < 10000"
    and "character (start r2) < 10000" and "character (end' r2) < 10000"
    and "pos_le (start r2) (start r1)" and "pos_le (end' r1) (end' r2)"
  shows "rangeSize r1 \<le> rangeSize r2"
  using assms unfolding rangeSize_def pos_le_def by auto

theorem rangeSize_mono_witness:
  "pos_le (start (new_Range 2 2 4 2)) (end' (new_Range 2 2 4 2))
   \<and> pos_le (start (new_Range 0 7 10 0)) (end' (new_Range 0 7 10 0))
   \<and> character (start (new_Range 2 2 4 2)) < 10000
   \<and> character (end' (new_Range 2 2 4 2)) < 10000
   \<and> character (start (new_Range 0 7 10 0)) < 10000
   \<and> character (end' (new_Range 0 7 10 0)) < 10000
   \<and> pos_le (start (new_Range 0 7 10 0)) (start (new_Range 2 2 4 2))
   \<and> pos_le (end' (new_Range 2 2 4 2)) (end' (new_Range 0 7 10 0))
   \<and> rangeSize (new_Range 2 2 4 2) \<le> rangeSize (new_Range 0 7 10 0)"
proof -
  let ?r1 = "new_Range 2 2 4 2" and ?r2 = "new_Range 0 7 10 0"
  have h: "pos_le (start ?r1) (end' ?r1)" "pos_le (start ?r2) (end' ?r2)"
    "character (start ?r1) < 10000" "character (end' ?r1) < 10000"
    "character (start ?r2) < 10000" "character (end' ?r2) < 10000"
    "pos_le (start ?r2) (start ?r1)" "pos_le (end' ?r1) (end' ?r2)"
    by (simp_all add: pos_le_def new_Range_def new_Position_def)
  from rangeSize_mono [OF h] h show ?thesis by blast
qed

subsection \<open>The stable sort\<close>

lemma js_sort_Cons: "js_sort cmp (x # xs) = js_insert cmp x (js_sort cmp xs)"
  by (simp add: js_sort_def)

text \<open>Sorted by a numeric key, the first element of the result is the first of the
  elements of least key in the input.\<close>

lemma js_sort_first_least:
  "xs \<noteq> [] \<Longrightarrow>
   \<exists>pre e post rest. xs = pre @ e # post \<and> js_sort (\<lambda>a b. f a - f b) xs = e # rest
      \<and> (\<forall>p \<in> set pre. f e < f p) \<and> (\<forall>q \<in> set post. f e \<le> f q)"
proof (induction xs)
  case Nil
  then show ?case by simp
next
  case (Cons x xs)
  show ?case
  proof (cases "xs = []")
    case True
    then have "x # xs = [] @ x # [] \<and> js_sort (\<lambda>a b. f a - f b) (x # xs) = x # []"
      by (simp add: js_sort_def)
    then show ?thesis by fastforce
  next
    case False
    from Cons.IH [OF False] obtain pre e post rest where
      xs: "xs = pre @ e # post" and srt: "js_sort (\<lambda>a b. f a - f b) xs = e # rest"
      and pre: "\<forall>p \<in> set pre. f e < f p" and post: "\<forall>q \<in> set post. f e \<le> f q"
      by blast
    show ?thesis
    proof (cases "f x \<le> f e")
      case True
      have all: "\<forall>q \<in> set xs. f x \<le> f q"
        using True pre post xs by fastforce
      have "js_sort (\<lambda>a b. f a - f b) (x # xs) = x # e # rest"
        using True srt by (simp add: js_sort_Cons)
      with all show ?thesis
        by (intro exI [of _ "[]"] exI [of _ x] exI [of _ xs] exI [of _ "e # rest"]) simp
    next
      case False
      have "js_sort (\<lambda>a b. f a - f b) (x # xs) = e # js_insert (\<lambda>a b. f a - f b) x rest"
        using False srt by (simp add: js_sort_Cons)
      moreover have "x # xs = (x # pre) @ e # post" using xs by simp
      moreover have "\<forall>p \<in> set (x # pre). f e < f p" using False pre by simp
      ultimately show ?thesis using post by blast
    qed
  qed
qed

subsection \<open>The block locator\<close>

lemma cmpRangeSize_key:
  "cmpRangeSize = (\<lambda>a b. rangeSize (sym_range (symb a)) - rangeSize (sym_range (symb b)))"
  by (intro ext) (simp add: cmpRangeSize_def)

lemma kindWanted_wantKind:
  "kindWanted (wantKind bt) k \<longleftrightarrow> k \<in> (if bt = ''class'' then {Class} else {Function, Method})"
  by (simp add: wantKind_def)

lemma candidates_filter:
  "candidates cursor bt symbols =
     filter (\<lambda>e. sym_kind (symb e) \<in> (if bt = ''class'' then {Class} else {Function, Method})
                \<and> inRange cursor (sym_range (symb e))) (walk symbols [])"
  unfolding candidates_def filter_filter kindWanted_wantKind
  by (rule filter_cong) auto

text \<open>
  Claim C1. For every cursor and wanted kinds (\<open>Class\<close>, or \<open>Function\<close> and \<open>Method\<close>), if
  some flattened entry of a wanted kind has a range that holds the cursor, then
  \<open>detectCurrentBlock\<close> selects, among these entries, one whose range has the least size
  \<^verbatim>\<open>(end.line - start.line) * 10000 + (end.column - start.column)\<close>, and among those of
  least size the first in flattening order: every matching entry before the selected one
  has a strictly larger size, every one after it a size at least as large. The selected
  entry's name is the name the call stores.
\<close>

theorem detectCurrentBlock_innermost:
  assumes "\<exists>e \<in> set (walk symbols []).
             sym_kind (symb e) \<in> (if blockType this = ''class'' then {Class} else {Function, Method})
             \<and> inRange (active ed) (sym_range (symb e))"
  shows "\<exists>pre e post.
           filter (\<lambda>e. sym_kind (symb e)
                          \<in> (if blockType this = ''class'' then {Class} else {Function, Method})
                        \<and> inRange (active ed) (sym_range (symb e))) (walk symbols [])
             = pre @ e # post
         \<and> (\<forall>p \<in> set pre.
               (int (line (end' (sym_range (symb e)))) - int (line (start (sym_range (symb e))))) * 10000
                 + (int (character (end' (sym_range (symb e))))
                    - int (character (start (sym_range (symb e)))))
               < (int (line (end' (sym_range (symb p)))) - int (line (start (sym_range (symb p))))) * 10000
                 + (int (character (end' (sym_range (symb p))))
                    - int (character (start (sym_range (symb p))))))
         \<and> (\<forall>q \<in> set post.
               (int (line (end' (sym_range (symb e)))) - int (line (start (sym_range (symb e))))) * 10000
                 + (int (character (end' (sym_range (symb e))))
                    - int (character (start (sym_range (symb e)))))
               \<le> (int (line (end' (sym_range (symb q)))) - int (line (start (sym_range (symb q))))) * 10000
                 + (int (character (end' (sym_range (symb q))))
                    - int (character (start (sym_range (symb q))))))
         \<and> containing (active ed) (blockType this) symbols = Some e
         \<and> sel_name (fst (detectCurrentBlock this ed (Some symbols))) = sym_name (symb e)"
proof -
  let ?c = "candidates (active ed) (blockType this) symbols"
  have "?c \<noteq> []"
    using assms unfolding candidates_filter by (auto simp: filter_empty_conv)
  from js_sort_first_least [OF this, of "\<lambda>e. rangeSize (sym_range (symb e))"]
  obtain pre e post rest where
    c: "?c = pre @ e # post" and s: "js_sort cmpRangeSize ?c = e # rest"
    and pre: "\<forall>p \<in> set pre. rangeSize (sym_range (symb e)) < rangeSize (sym_range (symb p))"
    and post: "\<forall>q \<in> set post. rangeSize (sym_range (symb e)) \<le> rangeSize (sym_range (symb q))"
    unfolding cmpRangeSize_key by blast
  have cont: "containing (active ed) (blockType this) symbols = Some e"
    using s by (simp add: containing_def)
  have "sel_name (fst (detectCurrentBlock this ed (Some symbols))) = sym_name (symb e)"
    using cont by (simp add: detectCurrentBlock_def Let_def split: sum.splits)
  with c pre post cont show ?thesis
    unfolding candidates_filter rangeSize_def by blast
qed

text \<open>In \<open>nested_tree\<close> the inner function is the smaller one (size 20000 against 100000)
  and is selected, though the outer one comes first in the flattening. In \<open>tie_tree\<close> the
  two functions have the same size, and the outer one, first in the flattening, is
  selected.\<close>

theorem detectCurrentBlock_innermost_witness:
  "(\<exists>e \<in> set (walk nested_tree []).
      sym_kind (symb e)
        \<in> (if blockType (new_Selection ''function'') = ''class'' then {Class}
           else {Function, Method})
      \<and> inRange (active \<lparr>document = scenario_doc, active = new_Position 3 0\<rparr>)
          (sym_range (symb e)))
   \<and> containing (new_Position 3 0) ''function'' nested_tree =
       Some \<lparr>symb = DocumentSymbol ''inner'' Function (new_Range 2 2 4 2) [],
             parents = nested_tree\<rparr>
   \<and> (\<exists>e \<in> set (walk tie_tree []).
      sym_kind (symb e)
        \<in> (if blockType (new_Selection ''function'') = ''class'' then {Class}
           else {Function, Method})
      \<and> inRange (active \<lparr>document = scenario_doc, active = new_Position 1 0\<rparr>)
          (sym_range (symb e)))
   \<and> containing (new_Position 1 0) ''function'' tie_tree =
       Some \<lparr>symb = hd tie_tree, parents = []\<rparr>"
proof -
  let ?sel = "new_Selection ''function''"
  let ?ed3 = "\<lparr>document = scenario_doc, active = new_Position 3 0\<rparr>"
  let ?ed1 = "\<lparr>document = scenario_doc, active = new_Position 1 0\<rparr>"
  have h3: "\<exists>e \<in> set (walk nested_tree []).
      sym_kind (symb e) \<in> (if blockType ?sel = ''class'' then {Class} else {Function, Method})
      \<and> inRange (active ?ed3) (sym_range (symb e))"
    by (simp add: nested_tree_def new_Selection_def inRange_def new_Range_def new_Position_def)
  from detectCurrentBlock_innermost [OF h3] obtain pre e post where
    f: "filter (\<lambda>e. sym_kind (symb e)
                      \<in> (if blockType ?sel = ''class'' then {Class} else {Function, Method})
                    \<and> inRange (active ?ed3) (sym_range (symb e))) (walk nested_tree [])
          = pre @ e # post"
    and q: "\<forall>q \<in> set post.
               (int (line (end' (sym_range (symb e)))) - int (line (start (sym_range (symb e))))) * 10000
                 + (int (character (end' (sym_range (symb e))))
                    - int (character (start (sym_range (symb e)))))
               \<le> (int (line (end' (sym_range (symb q)))) - int (line (start (sym_range (symb q))))) * 10000
                 + (int (character (end' (sym_range (symb q))))
                    - int (character (start (sym_range (symb q)))))"
    and c: "containing (active ?ed3) (blockType ?sel) nested_tree = Some e"
    by blast
  from f q have "e = \<lparr>symb = DocumentSymbol ''inner'' Function (new_Range 2 2 4 2) [],
                      parents = nested_tree\<rparr>"
    by (auto simp: nested_tree_def new_Selection_def inRange_def new_Range_def new_Position_def
        Cons_eq_append_conv)
  with c have nested: "containing (new_Position 3 0) ''function'' nested_tree =
       Some \<lparr>symb = DocumentSymbol ''inner'' Function (new_Range 2 2 4 2) [],
             parents = nested_tree\<rparr>"
    by (simp add: new_Selection_def)
  have h1: "\<exists>e \<in> set (walk tie_tree []).
      sym_kind (symb e) \<in> (if blockType ?sel = ''class'' then {Class} else {Function, Method})
      \<and> inRange (active ?ed1) (sym_range (symb e))"
    by (simp add: tie_tree_def new_Selection_def inRange_def new_Range_def new_Position_def)
  from detectCurrentBlock_innermost [OF h1] obtain pre' e' post' where
    f': "filter (\<lambda>e. sym_kind (symb e)
                      \<in> (if blockType ?sel = ''class'' then {Class} else {Function, Method})
                    \<and> inRange (active ?ed1) (sym_range (symb e))) (walk tie_tree [])
          = pre' @ e' # post'"
    and p': "\<forall>p \<in> set pre'.
               (int (line (end' (sym_range (symb e')))) - int (line (start (sym_range (symb e'))))) * 10000
                 + (int (character (end' (sym_range (symb e'))))
                    - int (character (start (sym_range (symb e')))))
               < (int (line (end' (sym_range (symb p)))) - int (line (start (sym_range (symb p))))) * 10000
                 + (int (character (end' (sym_range (symb p))))
                    - int (character (start (sym_range (symb p)))))"
    and c': "containing (active ?ed1) (blockType ?sel) tie_tree = Some e'"
    by blast
  from f' p' have "e' = \<lparr>symb = hd tie_tree, parents = []\<rparr>"
    by (auto simp: tie_tree_def new_Selection_def inRange_def new_Range_def new_Position_def
        Cons_eq_append_conv)
  with c' have tie: "containing (new_Position 1 0) ''function'' tie_tree =
       Some \<lparr>symb = hd tie_tree, parents = []\<rparr>"
    by (simp add: new_Selection_def)
  from h3 nested h1 tie show ?thesis by blast
qed



text \<open>
  The scenario of the specification: in the tree of the class \<^verbatim>\<open>A\<close> with the method
  \<^verbatim>\<open>foo\<close>, with the cursor at (3,0), a selection of block type \<^verbatim>\<open>function\<close> finds
  \<^verbatim>\<open>foo\<close>, over lines 2 to 4 and inside a class, and one of block type \<^verbatim>\<open>class\<close> finds
  \<^verbatim>\<open>A\<close>, over lines 0 to 10.
\<close>

theorem detectCurrentBlock_scenario:
  "detectCurrentBlock (new_Selection ''function'')
      \<lparr>document = scenario_doc, active = new_Position 3 0\<rparr> (Some scenario_tree)
     = (\<lparr>firstLine = Some (TextLine 2 []), lastLine = Some (TextLine 4 []),
         cursorInSelection = True, blockType = ''function'', sel_name = ''foo'',
         sel_text = [], selectionInClass = True\<rparr>, None)
   \<and> detectCurrentBlock (new_Selection ''class'')
      \<lparr>document = scenario_doc, active = new_Position 3 0\<rparr> (Some scenario_tree)
     = (\<lparr>firstLine = Some (TextLine 0 []), lastLine = Some (TextLine 10 []),
         cursorInSelection = True, blockType = ''class'', sel_name = ''A'',
         sel_text = [], selectionInClass = False\<rparr>, None)"
  by (simp add: detectCurrentBlock_def containing_def candidates_def js_sort_def wantKind_def
      scenario_tree_def scenario_doc_def new_Selection_def inRange_def new_Range_def
      new_Position_def cmpRangeSize_def rangeSize_def)

subsection \<open>Flattening\<close>

lemma walk_symb: "map symb (walk ss ps) = map symbol_of (flattenSymbols ss ps)"
  by (induction ss ps rule: walk.induct) (auto simp: symbol_of_def)

lemma walk_parents: "map parents (walk ss ps) = map parent (flattenSymbols ss ps)"
  by (induction ss ps rule: walk.induct) auto

lemma address_nonempty: "p \<in> set (preorder_addresses i ss) \<Longrightarrow> p \<noteq> []"
  by (induction i ss rule: preorder_addresses.induct) auto

lemma address_hd: "p \<in> set (preorder_addresses i ss) \<Longrightarrow> i \<le> hd p"
  by (induction i ss rule: preorder_addresses.induct) auto

lemma node_at_Cons:
  "i < length ss \<Longrightarrow> q \<noteq> [] \<Longrightarrow> node_at ss (i # q) = node_at (sym_children (ss ! i)) q"
  by (cases q) simp_all

lemma ancestors_at_single: "ancestors_at ss [i] = []"
  by (simp add: ancestors_at_def)

lemma ancestors_at_Cons:
  assumes "i < length ss" and "q \<noteq> []"
  shows "ancestors_at ss (i # q) = Some (ss ! i) # ancestors_at (sym_children (ss ! i)) q"
proof -
  have "[1..<length (i # q)] = map Suc [0..<length q]"
    by (simp add: map_Suc_upt del: upt_Suc)
  then have a: "ancestors_at ss (i # q) = map (\<lambda>k. node_at ss (i # take k q)) [0..<length q]"
    unfolding ancestors_at_def by (simp add: comp_def del: upt_Suc)
  have b: "[0..<length q] = 0 # [1..<length q]"
    using assms(2) by (simp add: upt_conv_Cons del: upt_Suc)
  have c: "map (\<lambda>k. node_at ss (i # take k q)) [1..<length q]
         = map (\<lambda>k. node_at (sym_children (ss ! i)) (take k q)) [1..<length q]"
  proof (rule map_cong [OF refl])
    fix k assume "k \<in> set [1..<length q]"
    then have "take k q \<noteq> []" using assms(2) by (simp add: take_eq_Nil)
    then show "node_at ss (i # take k q) = node_at (sym_children (ss ! i)) (take k q)"
      using assms(1) by (simp add: node_at_Cons)
  qed
  show ?thesis
    unfolding a b using assms(1) c by (simp add: ancestors_at_def del: upt_Suc)
qed

lemma node_at_addresses:
  "map (node_at (pre @ ss)) (preorder_addresses (length pre) ss)
     = map (\<lambda>e. Some (symb e)) (walk ss ps)"
proof (induction ss ps arbitrary: pre rule: walk.induct)
  case (1 ps)
  show ?case by simp
next
  case (2 n k r cs rest ps)
  let ?s = "DocumentSymbol n k r cs"
  let ?all = "pre @ ?s # rest"
  have here: "node_at ?all [length pre] = Some ?s" by simp
  have below: "map (node_at ?all) (map ((#) (length pre)) (preorder_addresses 0 cs))
             = map (\<lambda>e. Some (symb e)) (if cs \<noteq> [] then walk cs (ps @ [?s]) else [])"
  proof (cases "cs = []")
    case True
    then show ?thesis by simp
  next
    case False
    have "map (node_at ?all) (map ((#) (length pre)) (preorder_addresses 0 cs))
        = map (node_at cs) (preorder_addresses 0 cs)"
      by (auto simp: node_at_Cons address_nonempty)
    also have "\<dots> = map (\<lambda>e. Some (symb e)) (walk cs (ps @ [?s]))"
      using "2.IH"(1) [OF False, of "[]"] by simp
    finally show ?thesis using False by simp
  qed
  have after: "map (node_at ?all) (preorder_addresses (Suc (length pre)) rest)
             = map (\<lambda>e. Some (symb e)) (walk rest ps)"
    using "2.IH"(2) [of "pre @ [?s]"] by simp
  show ?case
    using here below after by (simp del: node_at.simps)
qed

lemma ancestors_at_addresses:
  "map (\<lambda>p. map Some ps @ ancestors_at (pre @ ss) p) (preorder_addresses (length pre) ss)
     = map (\<lambda>e. map Some (parents e)) (walk ss ps)"
proof (induction ss ps arbitrary: pre rule: walk.induct)
  case (1 ps)
  show ?case by simp
next
  case (2 n k r cs rest ps)
  let ?s = "DocumentSymbol n k r cs"
  let ?all = "pre @ ?s # rest"
  have below: "map (\<lambda>p. map Some ps @ ancestors_at ?all p)
                 (map ((#) (length pre)) (preorder_addresses 0 cs))
             = map (\<lambda>e. map Some (parents e)) (if cs \<noteq> [] then walk cs (ps @ [?s]) else [])"
  proof (cases "cs = []")
    case True
    then show ?thesis by simp
  next
    case False
    have "map (\<lambda>p. map Some ps @ ancestors_at ?all p)
            (map ((#) (length pre)) (preorder_addresses 0 cs))
        = map (\<lambda>p. map Some (ps @ [?s]) @ ancestors_at ([] @ cs) p) (preorder_addresses 0 cs)"
      by (auto simp: ancestors_at_Cons address_nonempty)
    also have "\<dots> = map (\<lambda>e. map Some (parents e)) (walk cs (ps @ [?s]))"
      using "2.IH"(1) [OF False, of "[]"] by simp
    finally show ?thesis using False by simp
  qed
  have after: "map (\<lambda>p. map Some ps @ ancestors_at ?all p)
                 (preorder_addresses (Suc (length pre)) rest)
             = map (\<lambda>e. map Some (parents e)) (walk rest ps)"
    using "2.IH"(2) [of "pre @ [?s]"] by simp
  show ?case
    using below after by (simp add: ancestors_at_single)
qed

lemma address_mem:
  "j < length ss \<Longrightarrow> q = [] \<or> q \<in> set (preorder_addresses 0 (sym_children (ss ! j)))
   \<Longrightarrow> (i + j) # q \<in> set (preorder_addresses i ss)"
proof (induction i ss arbitrary: j rule: preorder_addresses.induct)
  case (1 i)
  then show ?case by simp
next
  case (2 i n k r cs rest)
  show ?case
  proof (cases j)
    case 0
    with "2.prems" show ?thesis by auto
  next
    case (Suc j')
    with "2.prems" have "(Suc i + j') # q \<in> set (preorder_addresses (Suc i) rest)"
      by (intro "2.IH"(2)) auto
    with Suc show ?thesis by simp
  qed
qed

lemma node_at_address: "node_at ss p \<noteq> None \<Longrightarrow> p \<in> set (preorder_addresses 0 ss)"
proof (induction ss p rule: node_at.induct)
  case (1 ss)
  then show ?case by simp
next
  case (2 ss i)
  then show ?case using address_mem [of i ss "[]" 0] by (simp split: if_splits)
next
  case (3 ss i j p)
  then show ?case using address_mem [of i ss "j # p" 0] by (simp split: if_splits)
qed

lemma addresses_valid:
  "set (preorder_addresses 0 roots) = {p. node_at roots p \<noteq> None}"
proof (intro equalityI subsetI)
  fix p assume p: "p \<in> set (preorder_addresses 0 roots)"
  then obtain i where i: "i < length (preorder_addresses 0 roots)" "preorder_addresses 0 roots ! i = p"
    by (auto simp: in_set_conv_nth)
  have eq: "map (node_at roots) (preorder_addresses 0 roots) = map (\<lambda>e. Some (symb e)) (walk roots [])"
    using node_at_addresses [of "[]" roots "[]"] by simp
  then have len: "length (preorder_addresses 0 roots) = length (walk roots [])"
    using map_eq_imp_length_eq by blast
  from eq have "map (node_at roots) (preorder_addresses 0 roots) ! i = map (\<lambda>e. Some (symb e)) (walk roots []) ! i"
    by simp
  then show "p \<in> {p. node_at roots p \<noteq> None}"
    using i len by simp
next
  fix p assume "p \<in> {p. node_at roots p \<noteq> None}"
  then show "p \<in> set (preorder_addresses 0 roots)" by (simp add: node_at_address)
qed

lemma Cons_less_by_hd: "p \<noteq> [] \<Longrightarrow> i < hd p \<Longrightarrow> i # q < p"
  by (cases p) auto

lemma single_less_Cons: "q \<noteq> [] \<Longrightarrow> [i] < i # q"
  by (cases q) auto

lemma addresses_ascending: "sorted_wrt (<) (preorder_addresses i ss)"
proof (induction i ss rule: preorder_addresses.induct)
  case (1 i)
  show ?case by simp
next
  case (2 i n k r cs rest)
  have below: "sorted_wrt (<) (map ((#) i) (preorder_addresses 0 cs))"
    using "2.IH"(1) by (simp add: sorted_wrt_map)
  have first: "\<forall>p \<in> set (map ((#) i) (preorder_addresses 0 cs) @ preorder_addresses (Suc i) rest). [i] < p"
  proof
    fix p assume "p \<in> set (map ((#) i) (preorder_addresses 0 cs) @ preorder_addresses (Suc i) rest)"
    then consider q where "p = i # q" "q \<in> set (preorder_addresses 0 cs)"
      | "p \<in> set (preorder_addresses (Suc i) rest)" by auto
    then show "[i] < p"
    proof cases
      case 1
      then show ?thesis using address_nonempty [of q 0 cs] single_less_Cons by blast
    next
      case 2
      then show ?thesis using address_nonempty [of p "Suc i" rest] address_hd [of p "Suc i" rest]
        by (intro Cons_less_by_hd) auto
    qed
  qed
  have cross: "\<forall>p \<in> set (map ((#) i) (preorder_addresses 0 cs)).
                 \<forall>q \<in> set (preorder_addresses (Suc i) rest). p < q"
  proof (intro ballI)
    fix p q assume "p \<in> set (map ((#) i) (preorder_addresses 0 cs))"
      and q: "q \<in> set (preorder_addresses (Suc i) rest)"
    then obtain p' where "p = i # p'" by auto
    then show "p < q"
      using address_nonempty [OF q] address_hd [OF q] by (auto intro!: Cons_less_by_hd)
  qed
  show ?case
    using below "2.IH"(2) first cross by (simp add: sorted_wrt_append)
qed

text \<open>
  Claim C2. For every symbol tree, both flatteners (\<open>walk\<close> of \<^verbatim>\<open>codeParser.js\<close> and
  \<open>flattenSymbols\<close> of \<^verbatim>\<open>navigationHandler.js\<close>) produce one entry for each node and no
  other, in depth-first pre-order with the child order kept, and the ancestor chain of each
  entry is the path of symbols from the root down to, but not including, the entry's own
  symbol. In the statement the addresses of the nodes are listed strictly ascending (that is
  pre-order), they are exactly the addresses at which the tree has a node, and the k-th
  entry holds the symbol and the ancestors at the k-th address.
\<close>

theorem flatten_preorder:
  "sorted_wrt (<) (preorder_addresses 0 roots)
   \<and> distinct (preorder_addresses 0 roots)
   \<and> set (preorder_addresses 0 roots) = {p. node_at roots p \<noteq> None}
   \<and> map (\<lambda>e. Some (symb e)) (walk roots []) = map (node_at roots) (preorder_addresses 0 roots)
   \<and> map (\<lambda>e. map Some (parents e)) (walk roots [])
       = map (ancestors_at roots) (preorder_addresses 0 roots)
   \<and> map (\<lambda>s. Some (symbol_of s)) (flattenSymbols roots [])
       = map (node_at roots) (preorder_addresses 0 roots)
   \<and> map (\<lambda>s. map Some (parent s)) (flattenSymbols roots [])
       = map (ancestors_at roots) (preorder_addresses 0 roots)"
proof -
  let ?ps = "preorder_addresses 0 roots"
  have asc: "sorted_wrt (<) ?ps" by (rule addresses_ascending)
  then have dist: "distinct ?ps" by (simp add: strict_sorted_iff)
  have nodes: "map (\<lambda>e. Some (symb e)) (walk roots []) = map (node_at roots) ?ps"
    using node_at_addresses [of "[]" roots "[]"] by simp
  have chains: "map (\<lambda>e. map Some (parents e)) (walk roots []) = map (ancestors_at roots) ?ps"
    using ancestors_at_addresses [of "[]" "[]" roots] by simp
  have "map (\<lambda>s. Some (symbol_of s)) (flattenSymbols roots [])
      = map Some (map symbol_of (flattenSymbols roots []))" by simp
  also have "\<dots> = map (\<lambda>e. Some (symb e)) (walk roots [])"
    unfolding walk_symb [symmetric] by simp
  finally have nodes': "map (\<lambda>s. Some (symbol_of s)) (flattenSymbols roots [])
      = map (node_at roots) ?ps" using nodes by simp
  have "map (\<lambda>s. map Some (parent s)) (flattenSymbols roots [])
      = map (map Some) (map parent (flattenSymbols roots []))" by simp
  also have "\<dots> = map (\<lambda>e. map Some (parents e)) (walk roots [])"
    unfolding walk_parents [symmetric] by simp
  finally have chains': "map (\<lambda>s. map Some (parent s)) (flattenSymbols roots [])
      = map (ancestors_at roots) ?ps" using chains by simp
  from asc dist addresses_valid nodes chains nodes' chains' show ?thesis by blast
qed

text \<open>The scenario's tree has the addresses \<open>[0]\<close> of the class and \<open>[0, 0]\<close> of the method.\<close>

theorem flatten_preorder_witness:
  "map (\<lambda>e. Some (symb e)) (walk scenario_tree [])
     = [Some (hd scenario_tree), Some (DocumentSymbol ''foo'' Method (new_Range 2 2 4 2) [])]
   \<and> map (\<lambda>s. map Some (parent s)) (flattenSymbols scenario_tree [])
     = [[], map Some scenario_tree]"
proof -
  have a: "preorder_addresses 0 scenario_tree = [[0], [0, 0]]"
    by (simp add: scenario_tree_def)
  have b: "map (node_at scenario_tree) [[0], [0, 0]]
         = [Some (hd scenario_tree), Some (DocumentSymbol ''foo'' Method (new_Range 2 2 4 2) [])]"
    by (simp add: scenario_tree_def)
  have c: "map (ancestors_at scenario_tree) [[0], [0, 0]] = [[], map Some scenario_tree]"
    by (simp add: scenario_tree_def ancestors_at_def)
  from flatten_preorder [of scenario_tree] show ?thesis
    unfolding a b c by blast
qed

subsection \<open>Jump targets\<close>

lemma set_js_insert: "set (js_insert cmp x xs) = insert x (set xs)"
  by (induction xs) auto

lemma length_js_insert: "length (js_insert cmp x xs) = Suc (length xs)"
  by (induction xs) auto

lemma set_js_sort: "set (js_sort cmp xs) = set xs"
  by (induction xs) (simp_all add: js_sort_def set_js_insert)

lemma length_js_sort: "length (js_sort cmp xs) = length xs"
  by (induction xs) (simp_all add: js_sort_def length_js_insert)

lemma cmpPosition_le: "cmpPosition a b \<le> 0 \<longleftrightarrow> pos_le (position a) (position b)"
  by (auto simp: cmpPosition_def pos_le_def)

lemma pos_le_total: "pos_le p q \<or> pos_le q p"
  by (auto simp: pos_le_def)

lemma pos_le_trans: "pos_le p q \<Longrightarrow> pos_le q r \<Longrightarrow> pos_le p r"
  by (auto simp: pos_le_def)

lemma ascending_js_insert: "ascending xs \<Longrightarrow> ascending (js_insert cmpPosition x xs)"
proof (induction xs)
  case Nil
  then show ?case by (simp add: ascending_def)
next
  case (Cons y ys)
  show ?case
  proof (cases "cmpPosition x y \<le> 0")
    case True
    then have xy: "pos_le (position x) (position y)" by (simp add: cmpPosition_le)
    have "\<forall>z \<in> set ys. pos_le (position x) (position z)"
      using Cons.prems xy by (auto simp: ascending_def intro: pos_le_trans)
    with True xy Cons.prems show ?thesis by (simp add: ascending_def)
  next
    case False
    then have yx: "pos_le (position y) (position x)"
      using pos_le_total [of "position x" "position y"] by (simp add: cmpPosition_le)
    have "ascending (js_insert cmpPosition x ys)"
      using Cons by (simp add: ascending_def)
    with False yx Cons.prems show ?thesis
      by (simp add: ascending_def set_js_insert)
  qed
qed

lemma ascending_js_sort: "ascending (js_sort cmpPosition xs)"
proof (induction xs)
  case Nil
  show ?case by (simp add: js_sort_def ascending_def)
next
  case (Cons x xs)
  then show ?case by (simp add: js_sort_def ascending_js_insert)
qed

lemma providerTargets_empty:
  "providerTargets doc symbols = [] \<longleftrightarrow> \<not> (\<exists>s \<in> set (flattenSymbols symbols []). isJumpableKind (fs_kind s))"
proof -
  have "providerTargets doc symbols = [] \<longleftrightarrow> length (providerTargets doc symbols) = 0" by simp
  also have "\<dots> \<longleftrightarrow> filter (\<lambda>s. isJumpableKind (fs_kind s)) (flattenSymbols symbols []) = []"
    unfolding providerTargets_def length_js_sort by simp
  finally show ?thesis by (auto simp: filter_empty_conv)
qed

lemma getJumpTargets_cases:
  "getJumpTargets doc provided =
     (if \<exists>s \<in> set (flattenSymbols (case provided of None \<Rightarrow> [] | Some ss \<Rightarrow> ss) []). isJumpableKind (fs_kind s)
      then providerTargets doc (case provided of None \<Rightarrow> [] | Some ss \<Rightarrow> ss)
      else regexTargets doc)"
proof (cases "(case provided of None \<Rightarrow> [] | Some ss \<Rightarrow> ss) = []")
  case True
  then show ?thesis by (simp add: getJumpTargets_def)
next
  case False
  then show ?thesis
    using providerTargets_empty [of doc "case provided of None \<Rightarrow> [] | Some ss \<Rightarrow> ss"]
    by (auto simp: getJumpTargets_def Let_def)
qed

lemma providerTargets_doc: "providerTargets doc symbols = providerTargets doc' symbols"
  by (simp add: providerTargets_def getPositionFromRange_def)

lemmas evaluate =
  getJumpTargets_def providerTargets_def js_sort_def isJumpableKind_def prettyName_def
  trim_def is_space_def cmpPosition_def getPositionFromRange_def new_Range_def
  new_Position_def regexTargets_def match_here_def is_word_char_def is_line_terminator_def

text \<open>
  Claim C4. For every symbol tree that holds a jumpable symbol (so that the provider path
  is the one taken), whatever the order of the jumpable symbols in the flattened list, the
  targets that \<open>getJumpTargets\<close> returns ascend by position, line first and then column;
  they are the targets of the jumpable symbols, as many as there are.
\<close>

theorem getJumpTargets_ascending:
  assumes "\<exists>s \<in> set (flattenSymbols symbols []). isJumpableKind (fs_kind s)"
  shows "ascending (getJumpTargets doc (Some symbols))
    \<and> set (getJumpTargets doc (Some symbols)) =
        (\<lambda>s. \<lparr>position = start (fs_range s), name = prettyName s\<rparr>)
          ` {s \<in> set (flattenSymbols symbols []). isJumpableKind (fs_kind s)}
    \<and> length (getJumpTargets doc (Some symbols)) =
        length (filter (\<lambda>s. isJumpableKind (fs_kind s)) (flattenSymbols symbols []))"
proof -
  have "getJumpTargets doc (Some symbols) = providerTargets doc symbols"
    using assms by (simp add: getJumpTargets_cases)
  then show ?thesis
    by (auto simp: providerTargets_def ascending_js_sort set_js_sort length_js_sort
        getPositionFromRange_def)
qed

text \<open>A class that starts on line 7 listed before a function that starts on line 1: the
  function's target comes first.\<close>

theorem getJumpTargets_ascending_witness:
  "getJumpTargets scenario_doc
     (Some [DocumentSymbol ''B'' Class (new_Range 7 0 9 0) [],
            DocumentSymbol ''g'' Function (new_Range 1 4 3 0) []])
   = [\<lparr>position = new_Position 1 4, name = ''g''\<rparr>, \<lparr>position = new_Position 7 0, name = ''B''\<rparr>]
   \<and> ascending (getJumpTargets scenario_doc
     (Some [DocumentSymbol ''B'' Class (new_Range 7 0 9 0) [],
            DocumentSymbol ''g'' Function (new_Range 1 4 3 0) []]))"
proof -
  let ?symbols = "[DocumentSymbol ''B'' Class (new_Range 7 0 9 0) [],
                   DocumentSymbol ''g'' Function (new_Range 1 4 3 0) []]"
  have h: "\<exists>s \<in> set (flattenSymbols ?symbols []). isJumpableKind (fs_kind s)"
    by (simp add: isJumpableKind_def)
  have "getJumpTargets scenario_doc (Some ?symbols)
      = [\<lparr>position = new_Position 1 4, name = ''g''\<rparr>, \<lparr>position = new_Position 7 0, name = ''B''\<rparr>]"
    by (simp add: evaluate)
  with getJumpTargets_ascending [OF h, of scenario_doc] show ?thesis by simp
qed

text \<open>
  Claim C5, as the code has it. The regular expression is used when the provider path
  yields no target: if the flattened tree holds a symbol of a jumpable kind, the result is
  built from the tree and is the same for every document; if the provider answers nothing,
  or only symbols of other kinds, the result is the scan of the document's text.
\<close>

theorem getJumpTargets_fallback:
  "getJumpTargets doc provided =
     (if \<exists>s \<in> set (flattenSymbols (case provided of None \<Rightarrow> [] | Some ss \<Rightarrow> ss) []). isJumpableKind (fs_kind s)
      then providerTargets doc' (case provided of None \<Rightarrow> [] | Some ss \<Rightarrow> ss)
      else regexTargets doc)"
  using getJumpTargets_cases [of doc provided] providerTargets_doc [of doc _ doc'] by simp

theorem getJumpTargets_fallback_witness:
  "getJumpTargets python_doc (Some scenario_tree) = providerTargets scenario_doc scenario_tree
   \<and> getJumpTargets python_doc None = regexTargets python_doc"
  using getJumpTargets_fallback [of python_doc "Some scenario_tree" scenario_doc]
    getJumpTargets_fallback [of python_doc None scenario_doc]
  by (simp add: scenario_tree_def isJumpableKind_def)

text \<open>Claim C5 as it is written fails: the provider answers one variable, a non-empty
  list, and the result is the regular expression's match in the text; with another text
  and the same symbols the result is another.\<close>

theorem getJumpTargets_regex_despite_symbols:
  "variable_only \<noteq> []
   \<and> getJumpTargets python_doc (Some variable_only) = [\<lparr>position = new_Position 0 0, name = ''f''\<rparr>]
   \<and> getJumpTargets python_doc (Some variable_only) = regexTargets python_doc
   \<and> getJumpTargets python_doc (Some variable_only) \<noteq> providerTargets python_doc variable_only
   \<and> getJumpTargets assignment_doc (Some variable_only) = []"
  by (simp add: variable_only_def python_doc_def assignment_doc_def evaluate)

text \<open>
  Claim C7, as the code has it. For the tree of a class \<^verbatim>\<open>A\<close> over [0,0]-[10,0] holding a
  method \<^verbatim>\<open>foo\<close> over [2,2]-[4,2], the targets are the class at (0,0) and the method at
  (2,2), named \<^verbatim>\<open>A\<close> and \<^verbatim>\<open>A::foo\<close>. Moving to the next symbol from (0,0) puts the cursor at
  (2,2) and schedules the announcement of \<^verbatim>\<open>A::foo\<close>; moving to the next symbol again from
  (2,2) reports that there is no next symbol and changes nothing.
\<close>

theorem scenario_navigation:
  "getJumpTargets doc (Some scenario_tree) =
     [\<lparr>position = new_Position 0 0, name = ''A''\<rparr>, \<lparr>position = new_Position 2 2, name = ''A::foo''\<rparr>]
   \<and> moveCursorToSymbol ''next''
        \<lparr>activeTextEditor = Some \<lparr>document = doc, active = new_Position 0 0\<rparr>, lastTimeout = pending\<rparr>
        (Some scenario_tree)
      = (\<lparr>activeTextEditor = Some \<lparr>document = doc, active = new_Position 2 2\<rparr>,
          lastTimeout = Some ''Moved next to A::foo.''\<rparr>, None)
   \<and> moveCursorToSymbol ''next''
        \<lparr>activeTextEditor = Some \<lparr>document = doc, active = new_Position 2 2\<rparr>,
         lastTimeout = Some ''Moved next to A::foo.''\<rparr>
        (Some scenario_tree)
      = (\<lparr>activeTextEditor = Some \<lparr>document = doc, active = new_Position 2 2\<rparr>,
          lastTimeout = Some ''Moved next to A::foo.''\<rparr>, Some ''No next symbol.'')"
proof -
  have t: "getJumpTargets doc (Some scenario_tree) =
     [\<lparr>position = new_Position 0 0, name = ''A''\<rparr>, \<lparr>position = new_Position 2 2, name = ''A::foo''\<rparr>]"
    by (simp add: scenario_tree_def evaluate)
  show ?thesis
    by (simp add: moveCursorToSymbol_def t isAfter_def isBeforeOrEqual_def directionWord_def
        new_Position_def)
qed

text \<open>Claim C7 as it is written fails: the target list is not the single target of the
  method, since a class is jumpable too.\<close>

theorem scenario_targets_not_single:
  "getJumpTargets scenario_doc (Some scenario_tree) \<noteq> [\<lparr>position = new_Position 2 2, name = ''A::foo''\<rparr>]"
  by (simp add: scenario_tree_def scenario_doc_def evaluate)

text \<open>
  Claim C6 says that for every flattened entry the display name is the trimmed names of
  the ancestors and of the symbol joined with \<^verbatim>\<open>::\<close>, every empty segment dropped, and the
  placeholder \<^verbatim>\<open>(unnamed)\<close> when nothing is left. The code does not do this for every entry:
  the own name of the symbol is tested for emptiness before it is trimmed, whereas the
  ancestors' names are trimmed first, so a name of white space alone leaves an empty last
  segment. For the method named by a single space in the class \<^verbatim>\<open>A\<close>, \<open>prettyName\<close> gives
  \<^verbatim>\<open>A::\<close> and the display name of the specification is \<^verbatim>\<open>A\<close>.
\<close>

theorem prettyName_blank_name:
  "prettyName blank_name_entry = ''A::'' \<and> displayName blank_name_entry = ''A''"
  by (simp add: blank_name_entry_def scenario_tree_def prettyName_def displayName_def trim_def is_space_def)

lemma join_nonempty: "xs \<noteq> [] \<Longrightarrow> \<forall>x \<in> set xs. x \<noteq> [] \<Longrightarrow> join sep xs \<noteq> []"
  by (induction sep xs rule: join.induct) auto

lemma trim_Nil: "trim [] = []"
  by (simp add: trim_def)

text \<open>
  Apart from names of white space alone the two agree: for every flattened entry whose own
  name is empty or keeps a character when trimmed, \<open>prettyName\<close> is the display name of
  the specification.
\<close>

theorem prettyName_displayName:
  assumes "fs_name s = [] \<or> trim (fs_name s) \<noteq> []"
  shows "prettyName s = displayName s"
proof -
  let ?anc = "filter (\<lambda>n. n \<noteq> []) (map (\<lambda>p. trim (sym_name p)) (parent s))"
  let ?chain = "if trim (fs_name s) \<noteq> [] then ?anc @ [trim (fs_name s)] else ?anc"
  have code: "(if fs_name s \<noteq> [] then ?anc @ [trim (fs_name s)] else ?anc) = ?chain"
    using assms by (auto simp: trim_Nil)
  have spec: "filter (\<lambda>n. n \<noteq> []) (map (\<lambda>p. trim (sym_name p)) (parent s) @ [trim (fs_name s)]) = ?chain"
    by simp
  have ne: "join ''::'' ?chain \<noteq> []" if "?chain \<noteq> []"
    by (rule join_nonempty [OF that]) auto
  have "prettyName s = (if join ''::'' ?chain \<noteq> [] then join ''::'' ?chain else ''(unnamed)'')"
    unfolding prettyName_def Let_def code ..
  also have "\<dots> = (if ?chain = [] then ''(unnamed)'' else join ''::'' ?chain)"
    using ne by (cases "?chain = []") simp_all
  also have "\<dots> = displayName s"
    unfolding displayName_def Let_def spec ..
  finally show ?thesis .
qed

theorem prettyName_displayName_witness:
  "prettyName \<lparr>fs_name = '' foo '', fs_kind = Method, fs_range = new_Range 2 2 4 2,
      fs_children = [], parent = scenario_tree\<rparr> = ''A::foo''"
proof -
  let ?s = "\<lparr>fs_name = '' foo '', fs_kind = Method, fs_range = new_Range 2 2 4 2,
      fs_children = [], parent = scenario_tree\<rparr>"
  have h: "fs_name ?s = [] \<or> trim (fs_name ?s) \<noteq> []"
    by (simp add: trim_def is_space_def)
  from prettyName_displayName [OF h] show ?thesis
    by (simp add: displayName_def scenario_tree_def trim_def is_space_def)
qed

subsection \<open>The navigator\<close>

lemma isAfter_iff: "isAfter p q \<longleftrightarrow> pos_less q p"
  by (auto simp: isAfter_def isBeforeOrEqual_def pos_less_def)

lemma isBefore_iff: "isBefore p q \<longleftrightarrow> pos_less p q"
  by (auto simp: isBefore_def pos_less_def)

lemma scanForward_find: "scanForward ts cur = find (\<lambda>t. pos_less cur (position t)) ts"
  by (induction ts) (simp_all add: isAfter_iff)

lemma scanBackward_find:
  "n \<le> length ts \<Longrightarrow>
   scanBackward ts n cur = find (\<lambda>t. pos_less (position t) cur) (rev (take n ts))"
  by (induction n) (simp_all add: take_Suc_conv_app_nth isBefore_iff)

lemma find_sorted_wrt:
  "sorted_wrt R xs \<Longrightarrow> find P xs = Some t \<Longrightarrow> u \<in> set xs \<Longrightarrow> P u \<Longrightarrow> u = t \<or> R t u"
  by (induction xs) (auto split: if_splits)

lemma pos_le_refl: "pos_le p p"
  by (simp add: pos_le_def)

text \<open>
  Claim C3. For every non-empty list of targets ascending by position and every cursor,
  moving to the next symbol selects the first target strictly after the cursor, and moving
  to the previous symbol the first target strictly before the cursor in the list read
  backwards; the selected target is the nearest one on its side. When there is no target on
  the side asked for, the call reports \<^verbatim>\<open>No next symbol.\<close> or \<^verbatim>\<open>No previous symbol.\<close>,
  which is not the report of an empty list, and leaves the cursor where it is: it never
  wraps around.
\<close>

theorem moveCursorToSymbol_nearest:
  assumes "activeTextEditor st = Some ed"
    and "getJumpTargets (document ed) provided = targets"
    and "targets \<noteq> []"
    and "ascending targets"
  shows "moveCursorToSymbol ''next'' st provided =
           (case find (\<lambda>t. pos_less (active ed) (position t)) targets of
              None \<Rightarrow> (st, Some ''No next symbol.'')
            | Some t \<Rightarrow>
               (st\<lparr>activeTextEditor := Some (ed\<lparr>active := position t\<rparr>),
                   lastTimeout := Some (''Moved next to '' @ name t @ ''.'')\<rparr>, None))
    \<and> moveCursorToSymbol ''previous'' st provided =
           (case find (\<lambda>t. pos_less (position t) (active ed)) (rev targets) of
              None \<Rightarrow> (st, Some ''No previous symbol.'')
            | Some t \<Rightarrow>
               (st\<lparr>activeTextEditor := Some (ed\<lparr>active := position t\<rparr>),
                   lastTimeout := Some (''Moved previous to '' @ name t @ ''.'')\<rparr>, None))
    \<and> (\<forall>t u. find (\<lambda>t. pos_less (active ed) (position t)) targets = Some t
           \<and> u \<in> set targets \<and> pos_less (active ed) (position u)
           \<longrightarrow> pos_le (position t) (position u))
    \<and> (\<forall>t u. find (\<lambda>t. pos_less (position t) (active ed)) (rev targets) = Some t
           \<and> u \<in> set targets \<and> pos_less (position u) (active ed)
           \<longrightarrow> pos_le (position u) (position t))
    \<and> snd (moveCursorToSymbol ''next'' st provided) \<noteq> Some ''No symbols found to jump to.''
    \<and> snd (moveCursorToSymbol ''previous'' st provided) \<noteq> Some ''No symbols found to jump to.''"
proof -
  have nxt: "moveCursorToSymbol ''next'' st provided =
           (case find (\<lambda>t. pos_less (active ed) (position t)) targets of
              None \<Rightarrow> (st, Some ''No next symbol.'')
            | Some t \<Rightarrow>
               (st\<lparr>activeTextEditor := Some (ed\<lparr>active := position t\<rparr>),
                   lastTimeout := Some (''Moved next to '' @ name t @ ''.'')\<rparr>, None))"
    using assms(1-3)
    by (simp add: moveCursorToSymbol_def scanForward_find directionWord_def split: option.splits)
  have prv: "moveCursorToSymbol ''previous'' st provided =
           (case find (\<lambda>t. pos_less (position t) (active ed)) (rev targets) of
              None \<Rightarrow> (st, Some ''No previous symbol.'')
            | Some t \<Rightarrow>
               (st\<lparr>activeTextEditor := Some (ed\<lparr>active := position t\<rparr>),
                   lastTimeout := Some (''Moved previous to '' @ name t @ ''.'')\<rparr>, None))"
    using assms(1-3)
    by (simp add: moveCursorToSymbol_def scanBackward_find directionWord_def split: option.splits)
  have least: "pos_le (position t) (position u)"
    if "find (\<lambda>t. pos_less (active ed) (position t)) targets = Some t"
      and "u \<in> set targets" and "pos_less (active ed) (position u)" for t u
    using find_sorted_wrt [OF assms(4) [unfolded ascending_def] that] pos_le_refl by auto
  have desc: "sorted_wrt (\<lambda>a b. pos_le (position b) (position a)) (rev targets)"
    using assms(4) by (simp add: ascending_def sorted_wrt_rev)
  have greatest: "pos_le (position u) (position t)"
    if "find (\<lambda>t. pos_less (position t) (active ed)) (rev targets) = Some t"
      and "u \<in> set targets" and "pos_less (position u) (active ed)" for t u
    using find_sorted_wrt [OF desc that(1) _ that(3)] that(2) pos_le_refl by auto
  have m1: "snd (moveCursorToSymbol ''next'' st provided) \<noteq> Some ''No symbols found to jump to.''"
    unfolding nxt by (simp split: option.splits)
  have m2: "snd (moveCursorToSymbol ''previous'' st provided) \<noteq> Some ''No symbols found to jump to.''"
    unfolding prv by (simp split: option.splits)
  from nxt prv least greatest m1 m2 show ?thesis by blast
qed

text \<open>With the cursor on the last target of the scenario, at (2,2): no next symbol, and
  the previous one is the class at (0,0).\<close>

theorem moveCursorToSymbol_nearest_witness:
  "moveCursorToSymbol ''next''
      \<lparr>activeTextEditor = Some \<lparr>document = scenario_doc, active = new_Position 2 2\<rparr>,
       lastTimeout = None\<rparr> (Some scenario_tree)
     = (\<lparr>activeTextEditor = Some \<lparr>document = scenario_doc, active = new_Position 2 2\<rparr>,
         lastTimeout = None\<rparr>, Some ''No next symbol.'')
   \<and> moveCursorToSymbol ''previous''
      \<lparr>activeTextEditor = Some \<lparr>document = scenario_doc, active = new_Position 2 2\<rparr>,
       lastTimeout = None\<rparr> (Some scenario_tree)
     = (\<lparr>activeTextEditor = Some \<lparr>document = scenario_doc, active = new_Position 0 0\<rparr>,
         lastTimeout = Some ''Moved previous to A.''\<rparr>, None)"
proof -
  let ?ed = "\<lparr>document = scenario_doc, active = new_Position 2 2\<rparr>"
  let ?st = "\<lparr>activeTextEditor = Some ?ed, lastTimeout = None\<rparr>"
  let ?ts = "[\<lparr>position = new_Position 0 0, name = ''A''\<rparr>,
              \<lparr>position = new_Position 2 2, name = ''A::foo''\<rparr>]"
  have h1: "activeTextEditor ?st = Some ?ed" by simp
  have h2: "getJumpTargets (document ?ed) (Some scenario_tree) = ?ts"
    by (simp add: scenario_tree_def evaluate)
  have h3: "?ts \<noteq> []" by simp
  have h4: "ascending ?ts" by (simp add: ascending_def pos_le_def new_Position_def)
  from moveCursorToSymbol_nearest [OF h1 h2 h3 h4] show ?thesis
    by (simp add: pos_less_def new_Position_def)
qed

end
